theory Spec2Isabelle
  imports Main
begin

section \<open>The tool server (src/server/analyst.py)\<close>

subsection \<open>Data\<close>

type_synonym path = string

text \<open>A scalar cell of a data frame, and of a result record.\<close>

datatype scalar = SNull | SStr string | SInt int | SBool bool

text \<open>
  A materialised \<open>pl.DataFrame\<close>: its schema in column order (column name, the dtype
  printed with \<open>str\<close>) and its rows.
\<close>

record frame =
  schema :: "(string \<times> string) list"
  rows :: "scalar list list"

text \<open>
  Exceptions of the server, told apart by where they are raised: \<open>ValueError\<close> is the
  only exception analyst.py raises itself (\<open>raise ValueError(f"Unsupported file type:
  {file_type}")\<close>); \<open>EngineError\<close> is any exception raised inside a polars call, which
  the code never catches, so it leaves the function unchanged.
\<close>

datatype error = ValueError string | EngineError string

text \<open>
  The argument of \<open>pl.read_parquet\<close>: \<open>read_file\<close> passes one path, \<open>read_file_list\<close>
  passes the whole list.
\<close>

datatype source = Path path | Paths "path list"

text \<open>
  polars is not part of the repository. Every polars function the server calls is a
  field of this record; \<open>Inl msg\<close> is an exception raised by the library. The type
  \<open>'lf\<close> is the library's lazy frame (\<open>pl.LazyFrame\<close>).
\<close>

record 'lf polars =
  read_csv :: "path \<Rightarrow> string + frame"
  read_parquet :: "source \<Rightarrow> string + frame"
  scan_csv :: "path \<Rightarrow> string + 'lf"
  concat :: "'lf list \<Rightarrow> string + 'lf"
  collect :: "'lf \<Rightarrow> string + frame"
  sql :: "frame \<Rightarrow> string \<Rightarrow> string + frame"

text \<open>The polars calls a server function makes, in program order.\<close>

datatype call =
    ReadCsv path
  | ReadParquet source
  | ScanCsv path
  | Concat nat
  | Collect
  | Sql string

text \<open>A server function returns the calls it made and its outcome.\<close>

type_synonym 'a outcome = "call list \<times> (error + 'a)"

definition engine :: "string + 'a \<Rightarrow> error + 'a" where
  "engine r = (case r of Inl m \<Rightarrow> Inl (EngineError m) | Inr v \<Rightarrow> Inr v)"

subsection \<open>read_file, read_file_list, get_schema, execute_polars_sql\<close>

definition unsupported :: "string \<Rightarrow> error" where
  "unsupported file_type = ValueError (''Unsupported file type: '' @ file_type)"

definition read_file :: "'lf polars \<Rightarrow> path \<Rightarrow> string \<Rightarrow> frame outcome" where
  "read_file pl file_location file_type =
     (if file_type = ''csv'' then ([ReadCsv file_location], engine (read_csv pl file_location))
      else if file_type = ''parquet'' then
        ([ReadParquet (Path file_location)], engine (read_parquet pl (Path file_location)))
      else ([], Inl (unsupported file_type)))"

text \<open>
  \<open>[pl.scan_csv(f) for f in file_locations]\<close>: the comprehension scans the files in list
  order and stops at the first scan that raises.
\<close>

fun scan_all :: "'lf polars \<Rightarrow> path list \<Rightarrow> ('lf list) outcome" where
  "scan_all pl [] = ([], Inr [])"
| "scan_all pl (f # fs) =
     (case scan_csv pl f of
        Inl m \<Rightarrow> ([ScanCsv f], Inl (EngineError m))
      | Inr lf \<Rightarrow>
          (case scan_all pl fs of
             (cs, Inl e) \<Rightarrow> (ScanCsv f # cs, Inl e)
           | (cs, Inr lfs) \<Rightarrow> (ScanCsv f # cs, Inr (lf # lfs))))"

definition read_file_list :: "'lf polars \<Rightarrow> path list \<Rightarrow> string \<Rightarrow> frame outcome" where
  "read_file_list pl file_locations file_type =
     (if file_type = ''csv'' then
        (case scan_all pl file_locations of
           (cs, Inl e) \<Rightarrow> (cs, Inl e)
         | (cs, Inr dfs) \<Rightarrow>
             (case concat pl dfs of
                Inl m \<Rightarrow> (cs @ [Concat (length dfs)], Inl (EngineError m))
              | Inr lf \<Rightarrow> (cs @ [Concat (length dfs), Collect], engine (collect pl lf))))
      else if file_type = ''parquet'' then
        ([ReadParquet (Paths file_locations)], engine (read_parquet pl (Paths file_locations)))
      else ([], Inl (unsupported file_type)))"

text \<open>One schema entry: the dict \<open>{"name": col, "dtype": str(dtype)}\<close>.\<close>

definition schema_entry :: "string \<times> string \<Rightarrow> (string \<times> string) list" where
  "schema_entry cd = [(''name'', fst cd), (''dtype'', snd cd)]"

definition get_schema :: "'lf polars \<Rightarrow> path \<Rightarrow> string \<Rightarrow> ((string \<times> string) list list) outcome" where
  "get_schema pl file_location file_type =
     (case read_file pl file_location file_type of
        (cs, Inl e) \<Rightarrow> (cs, Inl e)
      | (cs, Inr df) \<Rightarrow> (cs, Inr (map schema_entry (schema df))))"

text \<open>\<open>DataFrame.to_dicts\<close>: one dict per row, keyed by the column names in column order.\<close>

definition to_dicts :: "frame \<Rightarrow> (string \<times> scalar) list list" where
  "to_dicts df = map (\<lambda>r. zip (map fst (schema df)) r) (rows df)"

definition execute_polars_sql ::
  "'lf polars \<Rightarrow> path list \<Rightarrow> string \<Rightarrow> string \<Rightarrow> ((string \<times> scalar) list list) outcome" where
  "execute_polars_sql pl file_locations query file_type =
     (case read_file_list pl file_locations file_type of
        (cs, Inl e) \<Rightarrow> (cs, Inl e)
      | (cs, Inr df) \<Rightarrow>
          (case sql pl df query of
             Inl m \<Rightarrow> (cs @ [Sql query], Inl (EngineError m))
           | Inr op_df \<Rightarrow> (cs @ [Sql query], Inr (to_dicts op_df))))"

subsection \<open>What the loader expects of the library's lazy reading\<close>

text \<open>
  The row-wise concatenation of frames that share the schema \<open>S\<close>, in list order: the
  Dataset of the specification.
\<close>

definition rowwise_concatenation :: "(string \<times> string) list \<Rightarrow> frame list \<Rightarrow> frame" where
  "rowwise_concatenation S ds = \<lparr>schema = S, rows = List.concat (map rows ds)\<rparr>"

text \<open>
  The documented behaviour of lazy reading, as far as \<open>read_file_list\<close> relies on it:
  a file that \<open>read_csv\<close> reads can be scanned; collecting a scan gives what \<open>read_csv\<close>
  gives; a non-empty list of lazy frames can be concatenated; and collecting a
  concatenation of lazy frames of one schema gives the rows of the parts, part after
  part.
\<close>

definition lazy_reading :: "'lf polars \<Rightarrow> bool" where
  "lazy_reading pl \<longleftrightarrow>
     (\<forall>f d. read_csv pl f = Inr d \<longrightarrow> (\<exists>lf. scan_csv pl f = Inr lf))
   \<and> (\<forall>f lf. scan_csv pl f = Inr lf \<longrightarrow> collect pl lf = read_csv pl f)
   \<and> (\<forall>lfs. lfs \<noteq> [] \<longrightarrow> (\<exists>lf. concat pl lfs = Inr lf))
   \<and> (\<forall>lfs lf ds S.
         concat pl lfs = Inr lf \<and> list_all2 (\<lambda>l d. collect pl l = Inr d) lfs ds
           \<and> ds \<noteq> [] \<and> (\<forall>d \<in> set ds. schema d = S)
         \<longrightarrow> collect pl lf = Inr (rowwise_concatenation S ds))"

text \<open>
  Strict vertical concatenation: collecting a concatenation fails when two of its parts
  have different sets of column names.
\<close>

definition column_names :: "frame \<Rightarrow> string set" where
  "column_names d = set (map fst (schema d))"

definition strict_concat :: "'lf polars \<Rightarrow> bool" where
  "strict_concat pl \<longleftrightarrow>
     (\<forall>lfs lf ds.
         concat pl lfs = Inr lf \<and> list_all2 (\<lambda>l d. collect pl l = Inr d) lfs ds
           \<and> (\<exists>a \<in> set ds. \<exists>b \<in> set ds. column_names a \<noteq> column_names b)
         \<longrightarrow> (\<exists>m. collect pl lf = Inl m))"

section \<open>The chat agent (src/csv_agent/csv_agent.py)\<close>

subsection \<open>Python strings on the agent's side\<close>

text \<open>
  A Python \<open>str\<close> is a sequence of Unicode code points. The agent strips and
  lower-cases strings, which goes by code point, so its strings are lists of code
  points; \<open>str\<close> embeds a literal of ASCII characters. (The server only compares
  and concatenates strings; there a \<open>string\<close> stands for the text it encodes.)
\<close>

type_synonym pystr = "nat list"

definition str :: "string \<Rightarrow> pystr" where
  "str s = map of_char s"

text \<open>
  The whitespace of \<open>str.strip()\<close> and \<open>str.isspace()\<close>: U+0009 to U+000D, U+001C to
  U+0020, U+0085, U+00A0, U+1680, U+2000 to U+200A, U+2028, U+2029, U+202F, U+205F and
  U+3000.
\<close>

definition is_space :: "nat \<Rightarrow> bool" where
  "is_space c \<longleftrightarrow>
     (0x09 \<le> c \<and> c \<le> 0x0D) \<or> (0x1C \<le> c \<and> c \<le> 0x20) \<or> c = 0x85 \<or> c = 0xA0
     \<or> c = 0x1680 \<or> (0x2000 \<le> c \<and> c \<le> 0x200A) \<or> c = 0x2028 \<or> c = 0x2029
     \<or> c = 0x202F \<or> c = 0x205F \<or> c = 0x3000"

definition strip :: "pystr \<Rightarrow> pystr" where
  "strip s = rev (dropWhile is_space (rev (dropWhile is_space s)))"

definition endswith :: "pystr \<Rightarrow> pystr \<Rightarrow> bool" where
  "endswith s suf = (length suf \<le> length s \<and> drop (length s - length suf) s = suf)"

text \<open>\<open>sub in s\<close>: \<open>sub\<close> occurs in \<open>s\<close> as a contiguous substring.\<close>

fun contains :: "pystr \<Rightarrow> pystr \<Rightarrow> bool" where
  "contains sub [] = (sub = [])"
| "contains sub (c # cs) = (take (length sub) (c # cs) = sub \<or> contains sub cs)"

text \<open>
  \<open>str.lower()\<close>: the letters A to Z become a to z, the Kelvin sign U+212A becomes k,
  and U+0130 becomes i followed by U+0307. Every other cased character becomes a
  character outside ASCII; the router only looks for ASCII words in the result, so such
  characters are left as they are.
\<close>

definition lower_char :: "nat \<Rightarrow> pystr" where
  "lower_char c =
     (if 0x41 \<le> c \<and> c \<le> 0x5A then [c + 0x20]
      else if c = 0x212A then [0x6B]
      else if c = 0x130 then [0x69, 0x307]
      else [c])"

definition lower :: "pystr \<Rightarrow> pystr" where
  "lower s = List.concat (map lower_char s)"

text \<open>\<open>sep.join(parts)\<close>.\<close>

fun join :: "pystr \<Rightarrow> pystr list \<Rightarrow> pystr" where
  "join sep [] = []"
| "join sep [p] = p"
| "join sep (p # q # ps) = p @ sep @ join sep (q # ps)"

subsection \<open>Messages, exceptions, the remote tools\<close>

datatype role = Human | AI | Tool | System

record message =
  role :: role
  content :: pystr

text \<open>
  Exceptions inside the workflow graph: langgraph's \<open>GraphRecursionError\<close>, which
  \<open>execute\<close> catches on its own, and any other exception with its \<open>str(e)\<close>.
\<close>

datatype exn = GraphRecursionError | Raised pystr

text \<open>
  The tools as \<open>load_mcp_tools\<close> delivers them; \<open>None\<close> when the list holds no tool of
  that name. An exception of a tool is \<open>Inl\<close> of its \<open>str(e)\<close>.
  \<open>get_files_list_tool\<close> is the outcome of \<open>ainvoke({})\<close>, a string since the code
  calls \<open>.strip()\<close> on it. \<open>get_schema_tool\<close> maps the \<open>file_location\<close> argument to
  the decoded items of the result: the outer \<open>Inl\<close> is an exception of the call or of
  \<open>json.loads(raw_schema)\<close>, an inner \<open>Inl\<close> an item whose decoding or whose keys
  \<open>"name"\<close>/\<open>"dtype"\<close> raise. \<open>execute_sql_tool\<close> takes file_locations, query and
  file_type.
\<close>

record tools =
  get_files_list_tool :: "(pystr + pystr) option"
  get_schema_tool :: "(pystr \<Rightarrow> pystr + (pystr + pystr \<times> pystr) list) option"
  execute_sql_tool ::
    "(pystr list \<Rightarrow> pystr \<Rightarrow> pystr \<Rightarrow> pystr + (pystr \<times> scalar) list list) option"

text \<open>
  \<open>next(t for t in tools if t.name == ...)\<close> raises \<open>StopIteration\<close> when no tool has
  the name; inside an \<open>async def\<close> it leaves the coroutine as a \<open>RuntimeError\<close> with
  this message.
\<close>

definition stop_iteration :: pystr where
  "stop_iteration = str ''coroutine raised StopIteration''"

text \<open>The tool invocations the agent's own code makes, with their arguments.\<close>

datatype tool_call =
    GetFilesList
  | GetSchema pystr
  | ExecuteSql "pystr list" pystr pystr

subsection \<open>AgentOptimizer: the per-session cache, the context hook, the router\<close>

text \<open>\<open>_cached_schema\<close> is a Python dict: insertion-ordered, a key assigned again keeps its place.\<close>

fun dict_set :: "pystr \<Rightarrow> pystr \<Rightarrow> (pystr \<times> pystr) list \<Rightarrow> (pystr \<times> pystr) list" where
  "dict_set k v [] = [(k, v)]"
| "dict_set k v (p # ps) = (if fst p = k then (k, v) # ps else p # dict_set k v ps)"

record AgentOptimizer =
  user_id :: pystr
  cached_file_path :: pystr
  cached_schema :: "(pystr \<times> pystr) list"

definition AgentOptimizer_init :: "pystr \<Rightarrow> AgentOptimizer" where
  "AgentOptimizer_init uid = \<lparr>user_id = uid, cached_file_path = [], cached_schema = []\<rparr>"

definition pre_model_hook :: "AgentOptimizer \<Rightarrow> message list \<Rightarrow> message list" where
  "pre_model_hook opt msgs =
     (let context_parts =
            (if cached_file_path opt \<noteq> [] then [(str ''Data file: '') @ cached_file_path opt] else [])
          @ (if cached_schema opt \<noteq> []
             then [(str ''Columns: '') @ join (str '', '') (map fst (cached_schema opt))] else [])
      in if context_parts \<noteq> []
         then \<lparr>role = System, content = str ''CONTEXT: '' @ join (str '' | '') context_parts\<rparr> # msgs
         else msgs)"

datatype route = END | Reason

definition router_function :: "message list \<Rightarrow> route" where
  "router_function messages =
     (if messages = [] then END
      else let c = content (last messages) in
        if c = [] then END
        else if endswith (strip c) (str ''END'')
              \<or> length messages > 6
              \<or> contains (str ''final answer'') (lower c)
              \<or> contains (str ''complete'') (lower c)
              \<or> contains (str ''done'') (lower c)
              \<or> contains (str ''finished'') (lower c)
        then END
        else Reason)"

subsection \<open>SchemaCache\<close>

text \<open>
  A caching step returns the tool calls it made, the exception it raised if any, and
  the optimizer as it left it.
\<close>

definition cache_file_path ::
  "tools \<Rightarrow> AgentOptimizer \<Rightarrow> tool_call list \<times> pystr option \<times> AgentOptimizer" where
  "cache_file_path ts opt =
     (if cached_file_path opt = [] then
        (case get_files_list_tool ts of
           None \<Rightarrow> ([], Some stop_iteration, opt)
         | Some (Inl e) \<Rightarrow> ([GetFilesList], Some e, opt)
         | Some (Inr raw_path) \<Rightarrow>
             ([GetFilesList], None, opt\<lparr>cached_file_path := strip raw_path\<rparr>))
      else ([], None, opt))"

text \<open>
  The loop \<open>for obj in items\<close> writes into the dict entry by entry; an item that raises
  leaves the entries written so far.
\<close>

fun store_items ::
  "(pystr + pystr \<times> pystr) list \<Rightarrow> (pystr \<times> pystr) list \<Rightarrow> pystr option \<times> (pystr \<times> pystr) list" where
  "store_items [] sch = (None, sch)"
| "store_items (Inl e # objs) sch = (Some e, sch)"
| "store_items (Inr (n, d) # objs) sch = store_items objs (dict_set n d sch)"

definition cache_schema ::
  "tools \<Rightarrow> AgentOptimizer \<Rightarrow> tool_call list \<times> pystr option \<times> AgentOptimizer" where
  "cache_schema ts opt =
     (if cached_file_path opt = [] then ([], None, opt\<lparr>cached_schema := []\<rparr>)
      else if cached_schema opt = [] then
        (case get_schema_tool ts of
           None \<Rightarrow> ([], Some stop_iteration, opt)
         | Some t \<Rightarrow>
             (case t (cached_file_path opt) of
                Inl e \<Rightarrow> ([GetSchema (cached_file_path opt)], Some e, opt)
              | Inr items \<Rightarrow>
                  (case store_items items (cached_schema opt) of
                     (r, sch) \<Rightarrow>
                       ([GetSchema (cached_file_path opt)], r, opt\<lparr>cached_schema := sch\<rparr>))))
      else ([], None, opt))"

subsection \<open>The workflow graph and AgentExecutor\<close>

text \<open>
  The node "reason" is langgraph's prebuilt ReAct agent: the language model and the
  tools, neither part of the repository. It is a parameter: given the pre-model hook
  and the messages so far, it raises or returns the messages it adds (each tool
  invocation it makes adds one \<open>Tool\<close> message).
\<close>

type_synonym agent = "(message list \<Rightarrow> message list) \<Rightarrow> message list \<Rightarrow> exn + message list"

text \<open>
  The compiled graph: START, then "reason", then the router, which leads back to
  "reason" or to END. The first argument is the number of rounds the graph's recursion
  limit allows; a run that needs more raises \<open>GraphRecursionError\<close>. The result carries
  the number of rounds run.
\<close>

fun run_graph ::
  "nat \<Rightarrow> (message list \<Rightarrow> exn + message list) \<Rightarrow> message list \<Rightarrow> nat \<times> (exn + message list)" where
  "run_graph 0 node msgs = (0, Inl GraphRecursionError)"
| "run_graph (Suc n) node msgs =
     (case node msgs of
        Inl e \<Rightarrow> (1, Inl e)
      | Inr new \<Rightarrow>
          (let msgs' = msgs @ new in
           if router_function msgs' = END then (1, Inr msgs')
           else (case run_graph n node msgs' of (k, r) \<Rightarrow> (Suc k, r))))"

text \<open>
  \<open>AgentExecutor\<close> stores \<open>recursion_limit\<close>, but \<open>execute\<close> calls
  \<open>self.app.ainvoke(init_state, config=config)\<close> with a config that holds the thread id
  only, so the limit in force is the graph's own, the argument \<open>graph_limit\<close>.
\<close>

record AgentExecutor =
  recursion_limit :: nat

text \<open>The no-output reply starts with the warning sign, U+26A0 U+FE0F.\<close>

definition no_output :: pystr where
  "no_output = [0x26A0, 0xFE0F] @ str '' No output returned.''"

definition execute :: "AgentExecutor \<Rightarrow> nat \<Rightarrow> agent \<Rightarrow> AgentOptimizer \<Rightarrow> pystr \<Rightarrow> pystr" where
  "execute ex graph_limit ag opt msg =
     (case snd (run_graph graph_limit (ag (pre_model_hook opt)) [\<lparr>role = Human, content = msg\<rparr>]) of
        Inl GraphRecursionError \<Rightarrow> (str ''Partial result due to recursion limit.'')
      | Inl (Raised m) \<Rightarrow> (str ''Error: '') @ m
      | Inr msgs \<Rightarrow> (if length msgs > 0 then content (last msgs) else no_output))"

text \<open>
  \<open>CSVAnalysisAgent.run\<close> from the point where the session is initialised and the tools
  are loaded: the two caching steps, then the executor.
\<close>

definition run ::
  "nat \<Rightarrow> tools \<Rightarrow> agent \<Rightarrow> AgentOptimizer \<Rightarrow> pystr \<Rightarrow> tool_call list \<times> pystr \<times> AgentOptimizer" where
  "run graph_limit ts ag opt msg =
     (case cache_file_path ts opt of
        (c1, Some e, opt1) \<Rightarrow> (c1, (str ''Error during workflow: '') @ e, opt1)
      | (c1, None, opt1) \<Rightarrow>
          (case cache_schema ts opt1 of
             (c2, Some e, opt2) \<Rightarrow> (c1 @ c2, (str ''Error during workflow: '') @ e, opt2)
           | (c2, None, opt2) \<Rightarrow>
               (c1 @ c2, execute \<lparr>recursion_limit = 3\<rparr> graph_limit ag opt2 msg, opt2)))"

subsection \<open>A session as a sequence of caching steps\<close>

text \<open>
  The cache is written by \<open>cache_file_path\<close> and \<open>cache_schema\<close> only. A session is
  any sequence of these steps, each with the tools as they answer at that moment.
\<close>

datatype step = CacheFilePath tools | CacheSchema tools

fun run_steps :: "step list \<Rightarrow> AgentOptimizer \<Rightarrow> tool_call list \<times> AgentOptimizer" where
  "run_steps [] opt = ([], opt)"
| "run_steps (CacheFilePath ts # ss) opt =
     (case cache_file_path ts opt of
        (c, r, opt') \<Rightarrow> (case run_steps ss opt' of (cs, opt'') \<Rightarrow> (c @ cs, opt'')))"
| "run_steps (CacheSchema ts # ss) opt =
     (case cache_schema ts opt of
        (c, r, opt') \<Rightarrow> (case run_steps ss opt' of (cs, opt'') \<Rightarrow> (c @ cs, opt'')))"

text \<open>A schema is cached only under a cached path.\<close>

definition schema_under_path :: "AgentOptimizer \<Rightarrow> bool" where
  "schema_under_path opt \<longleftrightarrow> (cached_schema opt \<noteq> [] \<longrightarrow> cached_file_path opt \<noteq> [])"

subsection \<open>The text of a file listing\<close>



section \<open>The dashboard agent (src/dashboardagent.py)\<close>





record metric_result =
  result_metric :: pystr
  result_description :: pystr
  result_visualization_type :: pystr
  data :: "(pystr \<times> scalar) list list"


section \<open>An in-memory engine\<close>

text \<open>
  A small engine over a table of CSV files, used to run the server on concrete inputs.
  A lazy frame is the list of files still to be read; collecting reads them in order
  and stacks them vertically, which fails unless all schemas are equal. The SQL
  function is left open.
\<close>

definition vstack :: "frame list \<Rightarrow> string + frame" where
  "vstack dfs =
     (case dfs of
        [] \<Rightarrow> Inl ''cannot concat empty list''
      | d # ds \<Rightarrow>
          (if list_all (\<lambda>x. schema x = schema d) ds
           then Inr \<lparr>schema = schema d, rows = List.concat (map rows (d # ds))\<rparr>
           else Inl ''schema names or dtypes differ''))"

definition load_csv :: "(path \<times> frame) list \<Rightarrow> path \<Rightarrow> string + frame" where
  "load_csv files f = (case map_of files f of None \<Rightarrow> Inl ''No such file'' | Some d \<Rightarrow> Inr d)"

fun load_all :: "(path \<times> frame) list \<Rightarrow> path list \<Rightarrow> string + frame list" where
  "load_all files [] = Inr []"
| "load_all files (f # fs) =
     (case load_csv files f of
        Inl m \<Rightarrow> Inl m
      | Inr d \<Rightarrow> (case load_all files fs of Inl m \<Rightarrow> Inl m | Inr ds \<Rightarrow> Inr (d # ds)))"

definition memory_engine ::
  "(path \<times> frame) list \<Rightarrow> (frame \<Rightarrow> string \<Rightarrow> string + frame) \<Rightarrow> (path list) polars" where
  "memory_engine files run_sql =
     \<lparr>read_csv = load_csv files,
      read_parquet = (\<lambda>_. Inl ''No such file''),
      scan_csv = (\<lambda>f. case load_csv files f of Inl m \<Rightarrow> Inl m | Inr _ \<Rightarrow> Inr [f]),
      concat = (\<lambda>lfs. if lfs = [] then Inl ''cannot concat empty list'' else Inr (List.concat lfs)),
      collect = (\<lambda>fs. case load_all files fs of Inl m \<Rightarrow> Inl m | Inr ds \<Rightarrow> vstack ds),
      sql = run_sql\<rparr>"

text \<open>Two files of different column sets, and one more with the columns of the first.\<close>

definition teams_csv :: frame where
  "teams_csv = \<lparr>schema = [(''team'', ''String''), (''runs'', ''Int64'')],
               rows = [[SStr ''MI'', SInt 180], [SStr ''CSK'', SInt 175]]\<rparr>"

definition more_teams_csv :: frame where
  "more_teams_csv = \<lparr>schema = [(''team'', ''String''), (''runs'', ''Int64'')],
                    rows = [[SStr ''RCB'', SInt 165]]\<rparr>"

definition venues_csv :: frame where
  "venues_csv = \<lparr>schema = [(''venue'', ''String'')], rows = [[SStr ''Wankhede'']]\<rparr>"

definition sample_files :: "(path \<times> frame) list" where
  "sample_files = [(''data/teams.csv'', teams_csv), (''data/more.csv'', more_teams_csv),
                   (''data/venues.csv'', venues_csv)]"

text \<open>An SQL function that answers every query with the frame it is given.\<close>

definition echo_sql :: "frame \<Rightarrow> string \<Rightarrow> string + frame" where
  "echo_sql df q = Inr df"

definition sample_engine :: "(path list) polars" where
  "sample_engine = memory_engine sample_files echo_sql"






text \<open>A file of 37 rows and a file of none.\<close>

definition long_csv :: frame where
  "long_csv = \<lparr>schema = [(''team'', ''String''), (''runs'', ''Int64'')],
              rows = replicate 37 [SStr ''MI'', SInt 180]\<rparr>"

definition empty_csv :: frame where
  "empty_csv = \<lparr>schema = [(''team'', ''String''), (''runs'', ''Int64'')], rows = []\<rparr>"

definition long_engine :: "(path list) polars" where
  "long_engine =
     memory_engine [(''data/long.csv'', long_csv), (''data/empty.csv'', empty_csv)] echo_sql"

text \<open>The query with a nested SELECT of the specification's scenario.\<close>

definition nested_select_query :: string where
  "nested_select_query = ''SELECT team, (SELECT SUM(runs) FROM self) AS total FROM self''"

section \<open>Sample tools and agents\<close>



definition sample_tools :: "pystr \<Rightarrow> tools" where
  "sample_tools raw =
     \<lparr>get_files_list_tool = Some (Inr raw),
      get_schema_tool = Some (\<lambda>loc. Inr [Inr (str ''team'', str ''String''), Inr (str ''runs'', str ''Int64'')]),
      execute_sql_tool = Some (\<lambda>locs q ft. Inr [])\<rparr>"

text \<open>An agent that answers at once and one that invokes three tools first.\<close>

definition answering_agent :: agent where
  "answering_agent hook msgs = Inr [\<lparr>role = AI, content = str ''The average is 42. END''\<rparr>]"

definition three_tool_agent :: agent where
  "three_tool_agent hook msgs =
     Inr [\<lparr>role = Tool, content = str ''data/teams.csv''\<rparr>,
          \<lparr>role = Tool, content = str ''team, runs''\<rparr>,
          \<lparr>role = Tool, content = str ''355''\<rparr>,
          \<lparr>role = AI, content = str ''Total runs: 355 END''\<rparr>]"

text \<open>An agent whose reply is a Markdown table of 37 rows.\<close>

definition table_reply :: pystr where
  "table_reply =
     str ''| team | runs |'' @ [0x0A] @ str ''|------|------|'' @ [0x0A]
     @ List.concat (replicate 37 (str ''| MI | 180 |'' @ [0x0A])) @ str ''END''"

definition table_agent :: agent where
  "table_agent hook msgs = Inr [\<lparr>role = AI, content = table_reply\<rparr>]"

text \<open>An agent that never comes to an end.\<close>

definition pondering_agent :: agent where
  "pondering_agent hook msgs = Inr [\<lparr>role = AI, content = str ''thinking''\<rparr>]"

section \<open>Unsupported file types\<close>

text \<open>
  C7. For every file_type other than "csv" and "parquet", get_schema and read_file_list
  (the loader) both fail with the unsupported-file-type error, and no polars call is
  made, so no data is read.
\<close>

theorem unsupported_file_type_rejected:
  assumes "file_type \<noteq> ''csv''" and "file_type \<noteq> ''parquet''"
  shows "get_schema pl file_location file_type = ([], Inl (unsupported file_type))
       \<and> read_file_list pl file_locations file_type = ([], Inl (unsupported file_type))"
  using assms by (simp add: get_schema_def read_file_def read_file_list_def)

theorem unsupported_file_type_rejected_witness:
  "''json'' \<noteq> ''csv'' \<and> ''json'' \<noteq> ''parquet''
   \<and> get_schema (sample_engine) ''data/teams.csv'' ''json''
       = ([], Inl (ValueError ''Unsupported file type: json''))
   \<and> read_file_list (sample_engine) [''data/teams.csv''] ''json''
       = ([], Inl (ValueError ''Unsupported file type: json''))"
  using unsupported_file_type_rejected
          [of "''json''" "sample_engine" "''data/teams.csv''"
              "[''data/teams.csv'']"]
  by (simp add: unsupported_def)

section \<open>Loading CSV files\<close>

subsection \<open>The laws of lazy reading, one by one\<close>

lemma lazy_scan:
  "lazy_reading pl \<Longrightarrow> read_csv pl f = Inr d \<Longrightarrow> \<exists>lf. scan_csv pl f = Inr lf"
  unfolding lazy_reading_def by (elim conjE) (erule allE [of _ f], erule allE [of _ d], simp)

lemma lazy_collect_scan:
  "lazy_reading pl \<Longrightarrow> scan_csv pl f = Inr lf \<Longrightarrow> collect pl lf = read_csv pl f"
  unfolding lazy_reading_def by (elim conjE) simp

lemma lazy_concat: "lazy_reading pl \<Longrightarrow> lfs \<noteq> [] \<Longrightarrow> \<exists>lf. concat pl lfs = Inr lf"
  unfolding lazy_reading_def by (elim conjE) simp

lemma lazy_collect_concat:
  "lazy_reading pl \<Longrightarrow> concat pl lfs = Inr lf
   \<Longrightarrow> list_all2 (\<lambda>l d. collect pl l = Inr d) lfs ds
   \<Longrightarrow> ds \<noteq> [] \<Longrightarrow> \<forall>d \<in> set ds. schema d = S
   \<Longrightarrow> collect pl lf = Inr (rowwise_concatenation S ds)"
  unfolding lazy_reading_def
  by (elim conjE)
     (erule allE [of _ lfs], erule allE [of _ lf], erule allE [of _ ds], erule allE [of _ S], simp)

lemma strict_collect_concat:
  "strict_concat pl \<Longrightarrow> concat pl lfs = Inr lf
   \<Longrightarrow> list_all2 (\<lambda>l d. collect pl l = Inr d) lfs ds
   \<Longrightarrow> a \<in> set ds \<Longrightarrow> b \<in> set ds \<Longrightarrow> column_names a \<noteq> column_names b
   \<Longrightarrow> \<exists>m. collect pl lf = Inl m"
  unfolding strict_concat_def
  by (erule allE [of _ lfs], erule allE [of _ lf], erule allE [of _ ds]) auto

subsection \<open>Scanning\<close>

lemma read_file_csv: "snd (read_file pl f ''csv'') = Inr d \<longleftrightarrow> read_csv pl f = Inr d"
  by (simp add: read_file_def engine_def split: sum.splits)

lemma scan_all_reads:
  assumes "lazy_reading pl"
    and "list_all2 (\<lambda>f d. read_csv pl f = Inr d) files ds"
  shows "\<exists>lfs. scan_all pl files = (map ScanCsv files, Inr lfs)
              \<and> list_all2 (\<lambda>l d. collect pl l = Inr d) lfs ds"
  using assms(2)
proof (induction files ds rule: list_all2_induct)
  case Nil
  then show ?case by simp
next
  case (Cons f fs d ds)
  from lazy_scan [OF assms(1) Cons.hyps(1)] obtain lf where lf: "scan_csv pl f = Inr lf" ..
  from lazy_collect_scan [OF assms(1) lf] Cons.hyps(1) have c: "collect pl lf = Inr d" by simp
  from Cons.IH obtain lfs where "scan_all pl fs = (map ScanCsv fs, Inr lfs)"
    and "list_all2 (\<lambda>l d. collect pl l = Inr d) lfs ds" by blast
  with lf c show ?case by simp
qed

lemma scan_all_error: "snd (scan_all pl fs) = Inl e \<Longrightarrow> \<exists>m. e = EngineError m"
  by (induction fs) (auto split: sum.splits prod.splits)

lemma scan_all_no_sql: "Sql q \<notin> set (fst (scan_all pl fs))"
  by (induction fs) (auto split: sum.splits prod.splits)

lemma no_collect_in_scans: "filter (\<lambda>c. c = Collect) (map ScanCsv fs) = []"
  by (induction fs) simp_all

lemma csv_load_error: "snd (read_file_list pl fs ''csv'') = Inl e \<Longrightarrow> \<exists>m. e = EngineError m"
proof -
  assume a: "snd (read_file_list pl fs ''csv'') = Inl e"
  obtain cs r where sc: "scan_all pl fs = (cs, r)" by (cases "scan_all pl fs")
  show ?thesis
  proof (cases r)
    case (Inl e')
    with sc a have "e' = e" by (simp add: read_file_list_def)
    with scan_all_error [of pl fs e] sc Inl show ?thesis by simp
  next
    case (Inr lfs)
    with sc a show ?thesis
      by (auto simp: read_file_list_def engine_def split: sum.splits)
  qed
qed

lemma read_file_list_no_sql: "Sql q \<notin> set (fst (read_file_list pl fs ft))"
  using scan_all_no_sql [of q pl fs]
  by (auto simp: read_file_list_def split: sum.splits prod.splits)

subsection \<open>The in-memory engine obeys the laws\<close>

lemma vstack_Inr:
  "vstack xs = Inr d \<longleftrightarrow>
     xs \<noteq> [] \<and> (\<forall>x \<in> set xs. schema x = schema d) \<and> rows d = List.concat (map rows xs)"
  by (cases d) (auto simp: vstack_def list_all_iff split: list.splits)

lemma load_all_append:
  "load_all files (a @ b) =
     (case load_all files a of
        Inl m \<Rightarrow> Inl m
      | Inr xs \<Rightarrow> (case load_all files b of Inl m \<Rightarrow> Inl m | Inr ys \<Rightarrow> Inr (xs @ ys)))"
  by (induction a) (auto split: sum.splits)

lemma memory_collect_parts:
  "list_all2 (\<lambda>l d. collect (memory_engine files run_sql) l = Inr d) lfs ds
   \<Longrightarrow> list_all2 (\<lambda>l d. \<exists>xs. load_all files l = Inr xs \<and> vstack xs = Inr d) lfs ds"
  by (auto simp: memory_engine_def split: sum.splits elim!: list_all2_mono)

lemma memory_collect_concat:
  assumes "list_all2 (\<lambda>l d. \<exists>xs. load_all files l = Inr xs \<and> vstack xs = Inr d) lfs ds"
    and "\<forall>d \<in> set ds. schema d = S"
  shows "\<exists>ys. load_all files (List.concat lfs) = Inr ys \<and> (\<forall>y \<in> set ys. schema y = S)
            \<and> List.concat (map rows ys) = List.concat (map rows ds) \<and> (ds \<noteq> [] \<longrightarrow> ys \<noteq> [])"
  using assms
proof (induction lfs ds rule: list_all2_induct)
  case Nil
  then show ?case by simp
next
  case (Cons l ls d ds)
  from Cons.hyps(1) obtain xs where xs: "load_all files l = Inr xs" "vstack xs = Inr d" by blast
  from Cons.prems have "\<forall>d \<in> set ds. schema d = S" and S: "schema d = S" by simp_all
  with Cons.IH obtain ys where ys: "load_all files (List.concat ls) = Inr ys"
    "\<forall>y \<in> set ys. schema y = S" "List.concat (map rows ys) = List.concat (map rows ds)"
    by blast
  from xs(2) S have "xs \<noteq> []" "\<forall>x \<in> set xs. schema x = S" "rows d = List.concat (map rows xs)"
    by (simp_all add: vstack_Inr)
  with xs(1) ys show ?case by (auto simp: load_all_append)
qed

lemma memory_parts:
  assumes "list_all2 (\<lambda>l d. \<exists>xs. load_all files l = Inr xs \<and> vstack xs = Inr d) lfs ds"
  shows "\<exists>ys. load_all files (List.concat lfs) = Inr ys
            \<and> (\<forall>d \<in> set ds. \<exists>y \<in> set ys. schema y = schema d)"
  using assms
proof (induction lfs ds rule: list_all2_induct)
  case Nil
  then show ?case by simp
next
  case (Cons l ls d ds)
  from Cons.hyps(1) obtain xs where xs: "load_all files l = Inr xs" "vstack xs = Inr d" by blast
  from Cons.IH obtain ys where ys: "load_all files (List.concat ls) = Inr ys"
    "\<forall>d \<in> set ds. \<exists>y \<in> set ys. schema y = schema d" by blast
  from xs(2) obtain x where "x \<in> set xs" "schema x = schema d"
    by (cases xs) (auto simp: vstack_Inr)
  with xs(1) ys show ?case by (auto simp: load_all_append)
qed

lemma vstack_differ:
  assumes "a \<in> set ys" "b \<in> set ys" "schema a \<noteq> schema b"
  shows "\<exists>m. vstack ys = Inl m"
proof (cases "vstack ys")
  case (Inl m)
  then show ?thesis by blast
next
  case (Inr d)
  with assms have "schema a = schema d" "schema b = schema d" by (simp_all add: vstack_Inr)
  with assms(3) show ?thesis by simp
qed

lemma memory_engine_lazy_reading: "lazy_reading (memory_engine files run_sql)"
  unfolding lazy_reading_def
proof (intro conjI allI impI)
  fix f d assume "read_csv (memory_engine files run_sql) f = Inr d"
  then show "\<exists>lf. scan_csv (memory_engine files run_sql) f = Inr lf"
    by (simp add: memory_engine_def)
next
  fix f lf assume "scan_csv (memory_engine files run_sql) f = Inr lf"
  then show "collect (memory_engine files run_sql) lf = read_csv (memory_engine files run_sql) f"
    by (auto simp: memory_engine_def vstack_def split: sum.splits)
next
  fix lfs :: "path list list" assume "lfs \<noteq> []"
  then show "\<exists>lf. concat (memory_engine files run_sql) lfs = Inr lf"
    by (simp add: memory_engine_def)
next
  fix lfs lf ds S
  assume a: "concat (memory_engine files run_sql) lfs = Inr lf
     \<and> list_all2 (\<lambda>l d. collect (memory_engine files run_sql) l = Inr d) lfs ds
     \<and> ds \<noteq> [] \<and> (\<forall>d \<in> set ds. schema d = S)"
  then have lf: "lf = List.concat lfs"
    by (auto simp: memory_engine_def split: if_splits)
  from a have "list_all2 (\<lambda>l d. collect (memory_engine files run_sql) l = Inr d) lfs ds"
    by simp
  then have "list_all2 (\<lambda>l d. \<exists>xs. load_all files l = Inr xs \<and> vstack xs = Inr d) lfs ds"
    by (rule memory_collect_parts)
  with a obtain ys where ys: "load_all files (List.concat lfs) = Inr ys" "\<forall>y \<in> set ys. schema y = S"
    "List.concat (map rows ys) = List.concat (map rows ds)" "ys \<noteq> []"
    using memory_collect_concat [of files lfs ds S] by blast
  then have "vstack ys = Inr (rowwise_concatenation S ds)"
    by (simp add: vstack_Inr rowwise_concatenation_def)
  with ys(1) lf show "collect (memory_engine files run_sql) lf = Inr (rowwise_concatenation S ds)"
    by (simp add: memory_engine_def)
qed

lemma memory_engine_strict_concat: "strict_concat (memory_engine files run_sql)"
  unfolding strict_concat_def
proof (intro allI impI)
  fix lfs lf ds
  assume a: "concat (memory_engine files run_sql) lfs = Inr lf
     \<and> list_all2 (\<lambda>l d. collect (memory_engine files run_sql) l = Inr d) lfs ds
     \<and> (\<exists>a \<in> set ds. \<exists>b \<in> set ds. column_names a \<noteq> column_names b)"
  then have lf: "lf = List.concat lfs"
    by (auto simp: memory_engine_def split: if_splits)
  from a have "list_all2 (\<lambda>l d. collect (memory_engine files run_sql) l = Inr d) lfs ds"
    by simp
  then have "list_all2 (\<lambda>l d. \<exists>xs. load_all files l = Inr xs \<and> vstack xs = Inr d) lfs ds"
    by (rule memory_collect_parts)
  from memory_parts [OF this] obtain ys where ys: "load_all files (List.concat lfs) = Inr ys"
    "\<forall>d \<in> set ds. \<exists>y \<in> set ys. schema y = schema d" by blast
  from a obtain p q where pq: "p \<in> set ds" "q \<in> set ds" "column_names p \<noteq> column_names q"
    by blast
  then have "schema p \<noteq> schema q" by (auto simp: column_names_def)
  with ys(2) pq obtain y z where "y \<in> set ys" "z \<in> set ys" "schema y \<noteq> schema z"
    by metis
  from vstack_differ [OF this] obtain m where "vstack ys = Inl m" ..
  with ys(1) lf show "\<exists>m. collect (memory_engine files run_sql) lf = Inl m"
    by (simp add: memory_engine_def)
qed

subsection \<open>One lazy pass, the rows of every file in input order\<close>

lemma csv_load_rowwise:
  assumes "lazy_reading pl"
    and "files \<noteq> []"
    and "list_all2 (\<lambda>f d. snd (read_file pl f ''csv'') = Inr d) files ds"
    and "\<forall>d \<in> set ds. schema d = S"
  shows "read_file_list pl files ''csv''
           = (map ScanCsv files @ [Concat (length files), Collect],
              Inr (rowwise_concatenation S ds))"
proof -
  from assms(3) have reads: "list_all2 (\<lambda>f d. read_csv pl f = Inr d) files ds"
    by (simp add: read_file_csv)
  from scan_all_reads [OF assms(1) reads] obtain lfs
    where sc: "scan_all pl files = (map ScanCsv files, Inr lfs)"
      and co: "list_all2 (\<lambda>l d. collect pl l = Inr d) lfs ds" by blast
  from co reads have len: "length lfs = length files"
    by (simp add: list_all2_lengthD)
  with assms(2) have "lfs \<noteq> []" by auto
  from lazy_concat [OF assms(1) this] obtain lf where cc: "concat pl lfs = Inr lf" ..
  from reads assms(2) have "ds \<noteq> []" by (auto dest: list_all2_lengthD)
  from lazy_collect_concat [OF assms(1) cc co this assms(4)]
  have "collect pl lf = Inr (rowwise_concatenation S ds)" .
  with sc cc len show ?thesis
    by (simp add: read_file_list_def engine_def)
qed

text \<open>
  C6. For every non-empty list of CSV files that each read individually (\<open>read_file\<close>)
  with the same schema \<open>S\<close>, the loader scans each file lazily in input order,
  concatenates the lazy frames, collects exactly once, and returns the row-wise
  concatenation, in input order, of the frames the files give when read one by one.
  The library is any engine with the documented behaviour of lazy reading.
\<close>

theorem csv_load_is_rowwise_concatenation:
  assumes "lazy_reading pl"
    and "files \<noteq> []"
    and "list_all2 (\<lambda>f d. snd (read_file pl f ''csv'') = Inr d) files ds"
    and "\<forall>d \<in> set ds. schema d = S"
  shows "read_file_list pl files ''csv''
           = (map ScanCsv files @ [Concat (length files), Collect],
              Inr (rowwise_concatenation S ds))
       \<and> length (filter (\<lambda>c. c = Collect) (fst (read_file_list pl files ''csv''))) = 1"
  using csv_load_rowwise [OF assms] by (simp add: no_collect_in_scans)

theorem csv_load_is_rowwise_concatenation_witness:
  "lazy_reading sample_engine
   \<and> read_file_list sample_engine [''data/teams.csv'', ''data/more.csv''] ''csv''
     = ([ScanCsv ''data/teams.csv'', ScanCsv ''data/more.csv'', Concat 2, Collect],
        Inr \<lparr>schema = [(''team'', ''String''), (''runs'', ''Int64'')],
             rows = [[SStr ''MI'', SInt 180], [SStr ''CSK'', SInt 175], [SStr ''RCB'', SInt 165]]\<rparr>)"
proof -
  have h1: "lazy_reading sample_engine"
    unfolding sample_engine_def by (rule memory_engine_lazy_reading)
  have h2: "[''data/teams.csv'', ''data/more.csv''] \<noteq> []" by simp
  have h3: "list_all2 (\<lambda>f d. snd (read_file sample_engine f ''csv'') = Inr d)
             [''data/teams.csv'', ''data/more.csv''] [teams_csv, more_teams_csv]"
    by (simp add: read_file_def engine_def sample_engine_def memory_engine_def load_csv_def
          sample_files_def)
  have h4: "\<forall>d \<in> set [teams_csv, more_teams_csv].
              schema d = [(''team'', ''String''), (''runs'', ''Int64'')]"
    by (simp add: teams_csv_def more_teams_csv_def)
  have r: "rowwise_concatenation [(''team'', ''String''), (''runs'', ''Int64'')]
             [teams_csv, more_teams_csv]
      = \<lparr>schema = [(''team'', ''String''), (''runs'', ''Int64'')],
         rows = [[SStr ''MI'', SInt 180], [SStr ''CSK'', SInt 175], [SStr ''RCB'', SInt 165]]\<rparr>"
    by (simp add: rowwise_concatenation_def teams_csv_def more_teams_csv_def)
  from csv_load_is_rowwise_concatenation [OF h1 h2 h3 h4] h1 show ?thesis
    unfolding r by simp
qed

subsection \<open>Files of different column sets\<close>

text \<open>
  C2, as the specification states it, fails: the loader has no schema check of its
  own. On two files of different column sets its calls are the two scans, the
  concatenation and the collect, and the failure is the exception the engine raises
  while collecting, passed on as it is; the loader's own exception (\<open>ValueError\<close>) is
  not raised.
\<close>

theorem schema_mismatch_raised_by_engine:
  "column_names teams_csv \<noteq> column_names venues_csv
   \<and> read_file_list sample_engine [''data/teams.csv'', ''data/venues.csv''] ''csv''
       = ([ScanCsv ''data/teams.csv'', ScanCsv ''data/venues.csv'', Concat 2, Collect],
          Inl (EngineError ''schema names or dtypes differ''))"
  by (simp add: read_file_list_def engine_def sample_engine_def memory_engine_def load_csv_def
        sample_files_def vstack_def column_names_def teams_csv_def venues_csv_def)

text \<open>
  C2, amended. For every pair of CSV files that read individually with different
  column sets, and every engine that reads lazily and concatenates strictly, the load
  scans both files, concatenates, collects once and fails with the exception of the
  engine; no frame is returned. No failure of a CSV load is ever an exception of the
  loader itself.
\<close>

theorem csv_load_mismatch_fails_in_engine:
  assumes "lazy_reading pl" and "strict_concat pl"
    and "snd (read_file pl f1 ''csv'') = Inr d1"
    and "snd (read_file pl f2 ''csv'') = Inr d2"
    and "column_names d1 \<noteq> column_names d2"
  shows "(\<exists>m. read_file_list pl [f1, f2] ''csv''
             = ([ScanCsv f1, ScanCsv f2, Concat 2, Collect], Inl (EngineError m)))
       \<and> (\<forall>fs v. snd (read_file_list pl fs ''csv'') \<noteq> Inl (ValueError v))"
proof
  from assms(3,4) have reads: "list_all2 (\<lambda>f d. read_csv pl f = Inr d) [f1, f2] [d1, d2]"
    by (simp add: read_file_csv)
  from scan_all_reads [OF assms(1) reads] obtain lfs
    where sc: "scan_all pl [f1, f2] = (map ScanCsv [f1, f2], Inr lfs)"
      and co: "list_all2 (\<lambda>l d. collect pl l = Inr d) lfs [d1, d2]" by blast
  from co have len: "length lfs = 2" by (auto dest: list_all2_lengthD)
  then have "lfs \<noteq> []" by auto
  from lazy_concat [OF assms(1) this] obtain lf where cc: "concat pl lfs = Inr lf" ..
  from strict_collect_concat [OF assms(2) cc co _ _ assms(5)]
  obtain m where "collect pl lf = Inl m" by auto
  with sc cc len have "read_file_list pl [f1, f2] ''csv''
      = ([ScanCsv f1, ScanCsv f2, Concat 2, Collect], Inl (EngineError m))"
    by (simp add: read_file_list_def engine_def)
  then show "\<exists>m. read_file_list pl [f1, f2] ''csv''
      = ([ScanCsv f1, ScanCsv f2, Concat 2, Collect], Inl (EngineError m))" ..
next
  show "\<forall>fs v. snd (read_file_list pl fs ''csv'') \<noteq> Inl (ValueError v)"
    using csv_load_error [of pl] by fastforce
qed

theorem csv_load_mismatch_fails_in_engine_witness:
  "lazy_reading sample_engine \<and> strict_concat sample_engine
   \<and> snd (read_file sample_engine ''data/more.csv'' ''csv'') = Inr more_teams_csv
   \<and> snd (read_file sample_engine ''data/venues.csv'' ''csv'') = Inr venues_csv
   \<and> column_names more_teams_csv \<noteq> column_names venues_csv
   \<and> (\<exists>m. read_file_list sample_engine [''data/more.csv'', ''data/venues.csv''] ''csv''
          = ([ScanCsv ''data/more.csv'', ScanCsv ''data/venues.csv'', Concat 2, Collect],
             Inl (EngineError m)))"
proof -
  have h1: "lazy_reading sample_engine"
    unfolding sample_engine_def by (rule memory_engine_lazy_reading)
  have h2: "strict_concat sample_engine"
    unfolding sample_engine_def by (rule memory_engine_strict_concat)
  have h3: "snd (read_file sample_engine ''data/more.csv'' ''csv'') = Inr more_teams_csv"
    by (simp add: read_file_def engine_def sample_engine_def memory_engine_def load_csv_def
          sample_files_def)
  have h4: "snd (read_file sample_engine ''data/venues.csv'' ''csv'') = Inr venues_csv"
    by (simp add: read_file_def engine_def sample_engine_def memory_engine_def load_csv_def
          sample_files_def)
  have h5: "column_names more_teams_csv \<noteq> column_names venues_csv"
    by (simp add: column_names_def more_teams_csv_def venues_csv_def)
  from csv_load_mismatch_fails_in_engine [OF h1 h2 h3 h4 h5] h1 h2 h3 h4 h5
  show ?thesis by blast
qed

section \<open>Executing a query\<close>

text \<open>
  C1, as the specification states it, fails: no validation precedes the engine. The
  query with a nested SELECT is handed to the engine's SQL function as soon as the
  file is loaded; the calls before it are those of the loader.
\<close>

theorem nested_select_reaches_engine:
  "fst (execute_polars_sql sample_engine [''data/teams.csv''] nested_select_query ''csv'')
     = [ScanCsv ''data/teams.csv'', Concat 1, Collect, Sql nested_select_query]"
  by (simp add: execute_polars_sql_def read_file_list_def engine_def sample_engine_def
        memory_engine_def load_csv_def sample_files_def vstack_def echo_sql_def)

text \<open>
  C1, amended. The executor validates nothing: for every query, with or without a
  nested SELECT, the engine's SQL function is called on the query exactly when the
  files were loaded, and the outcome is then the engine's own (its exception, or the
  records of the frame it returns).
\<close>

theorem query_reaches_engine_unchecked:
  "(Sql q \<in> set (fst (execute_polars_sql pl files q ft)))
      = (\<exists>df. snd (read_file_list pl files ft) = Inr df)
   \<and> (snd (read_file_list pl files ft) = Inr df \<longrightarrow>
        snd (execute_polars_sql pl files q ft)
          = (case sql pl df q of Inl m \<Rightarrow> Inl (EngineError m) | Inr out \<Rightarrow> Inr (to_dicts out)))"
proof -
  obtain cs r where rl: "read_file_list pl files ft = (cs, r)"
    by (cases "read_file_list pl files ft")
  with read_file_list_no_sql [of q pl files ft] have "Sql q \<notin> set cs" by simp
  with rl show ?thesis
    by (cases r) (auto simp: execute_polars_sql_def split: sum.splits)
qed

theorem query_reaches_engine_unchecked_witness:
  "snd (read_file_list sample_engine [''data/teams.csv''] ''csv'') = Inr teams_csv
   \<and> Sql ''SELECT * FROM self''
        \<in> set (fst (execute_polars_sql sample_engine [''data/teams.csv''] ''SELECT * FROM self'' ''csv''))
   \<and> snd (execute_polars_sql sample_engine [''data/teams.csv''] ''SELECT * FROM self'' ''csv'')
        = Inr [[(''team'', SStr ''MI''), (''runs'', SInt 180)],
               [(''team'', SStr ''CSK''), (''runs'', SInt 175)]]"
proof -
  have h: "snd (read_file_list sample_engine [''data/teams.csv''] ''csv'') = Inr teams_csv"
    by (simp add: read_file_list_def engine_def sample_engine_def memory_engine_def load_csv_def
          sample_files_def vstack_def teams_csv_def)
  have s: "sql sample_engine teams_csv ''SELECT * FROM self'' = Inr teams_csv"
    by (simp add: sample_engine_def memory_engine_def echo_sql_def)
  have t: "to_dicts teams_csv = [[(''team'', SStr ''MI''), (''runs'', SInt 180)],
               [(''team'', SStr ''CSK''), (''runs'', SInt 175)]]"
    by (simp add: to_dicts_def teams_csv_def)
  from query_reaches_engine_unchecked
         [of "''SELECT * FROM self''" sample_engine "[''data/teams.csv'']" "''csv''" teams_csv] h
  show ?thesis by (auto simp: s t)
qed

subsection \<open>Two calls on one Dataset\<close>







section \<open>The session cache\<close>

lemma cache_file_path_kept:
  "cached_file_path opt \<noteq> [] \<Longrightarrow> cache_file_path ts opt = ([], None, opt)"
  by (simp add: cache_file_path_def)

lemma cache_schema_kept:
  "cached_file_path opt \<noteq> [] \<Longrightarrow> cached_schema opt \<noteq> [] \<Longrightarrow> cache_schema ts opt = ([], None, opt)"
  by (simp add: cache_schema_def)

lemma cache_schema_path:
  "cached_file_path (snd (snd (cache_schema ts opt))) = cached_file_path opt"
  by (simp add: cache_schema_def split: option.splits sum.splits prod.splits)

lemma cache_schema_no_listing: "GetFilesList \<notin> set (fst (cache_schema ts opt))"
  by (simp add: cache_schema_def split: option.splits sum.splits prod.splits)

lemma cache_file_path_inv:
  "schema_under_path opt \<Longrightarrow> schema_under_path (snd (snd (cache_file_path ts opt)))"
  by (auto simp: schema_under_path_def cache_file_path_def split: option.splits sum.splits)

lemma cache_schema_inv:
  "schema_under_path opt \<Longrightarrow> schema_under_path (snd (snd (cache_schema ts opt)))"
  by (auto simp: schema_under_path_def cache_schema_def split: option.splits sum.splits prod.splits)

lemma run_steps_inv:
  "schema_under_path opt \<Longrightarrow> schema_under_path (snd (run_steps ss opt))"
proof (induction ss arbitrary: opt)
  case Nil
  then show ?case by simp
next
  case (Cons s ss)
  show ?case
  proof (cases s)
    case (CacheFilePath ts)
    from Cons.IH [OF cache_file_path_inv [OF Cons.prems, of ts]] CacheFilePath
    show ?thesis by (auto split: prod.splits)
  next
    case (CacheSchema ts)
    from Cons.IH [OF cache_schema_inv [OF Cons.prems, of ts]] CacheSchema
    show ?thesis by (auto split: prod.splits)
  qed
qed

lemma run_steps_path_kept:
  "cached_file_path opt \<noteq> [] \<Longrightarrow>
     cached_file_path (snd (run_steps ss opt)) = cached_file_path opt
     \<and> GetFilesList \<notin> set (fst (run_steps ss opt))"
proof (induction ss arbitrary: opt)
  case Nil
  then show ?case by simp
next
  case (Cons s ss)
  show ?case
  proof (cases s)
    case (CacheFilePath ts)
    with Cons show ?thesis by (simp add: cache_file_path_kept split: prod.splits)
  next
    case (CacheSchema ts)
    obtain c r opt' where cs: "cache_schema ts opt = (c, r, opt')"
      by (cases "cache_schema ts opt")
    with cache_schema_path [of ts opt] cache_schema_no_listing [of ts opt]
    have p: "cached_file_path opt' = cached_file_path opt" "GetFilesList \<notin> set c" by simp_all
    with Cons.prems have "cached_file_path opt' \<noteq> []" by simp
    from Cons.IH [OF this] p cs CacheSchema show ?thesis by (auto split: prod.splits)
  qed
qed

lemma run_steps_kept:
  "cached_file_path opt \<noteq> [] \<Longrightarrow> cached_schema opt \<noteq> [] \<Longrightarrow> run_steps ss opt = ([], opt)"
proof (induction ss)
  case Nil
  then show ?case by simp
next
  case (Cons s ss)
  then show ?case
    by (cases s) (simp_all add: cache_file_path_kept cache_schema_kept)
qed

text \<open>
  C9. A fresh session starts with an empty cache, whatever happened before: the
  constructor takes the user id only. Within a session, once the file path is cached no
  later step changes it or asks for the file list again; once the schema is cached no
  later step writes the cache or calls a tool at all, so every later step, the
  pre-model hook included, sees the same values.
\<close>

theorem session_cache_written_once:
  "cached_file_path (AgentOptimizer_init uid) = [] \<and> cached_schema (AgentOptimizer_init uid) = []
   \<and> (cached_file_path (snd (run_steps before (AgentOptimizer_init uid))) \<noteq> [] \<longrightarrow>
        cached_file_path (snd (run_steps later (snd (run_steps before (AgentOptimizer_init uid)))))
          = cached_file_path (snd (run_steps before (AgentOptimizer_init uid)))
        \<and> GetFilesList \<notin> set (fst (run_steps later (snd (run_steps before (AgentOptimizer_init uid))))))
   \<and> (cached_schema (snd (run_steps before (AgentOptimizer_init uid))) \<noteq> [] \<longrightarrow>
        run_steps later (snd (run_steps before (AgentOptimizer_init uid)))
          = ([], snd (run_steps before (AgentOptimizer_init uid)))
        \<and> pre_model_hook (snd (run_steps later (snd (run_steps before (AgentOptimizer_init uid))))) msgs
          = pre_model_hook (snd (run_steps before (AgentOptimizer_init uid))) msgs)"
proof -
  define opt where "opt = snd (run_steps before (AgentOptimizer_init uid))"
  have "schema_under_path (AgentOptimizer_init uid)"
    by (simp add: schema_under_path_def AgentOptimizer_init_def)
  then have inv: "schema_under_path opt"
    unfolding opt_def by (rule run_steps_inv)
  have fresh: "cached_file_path (AgentOptimizer_init uid) = []
      \<and> cached_schema (AgentOptimizer_init uid) = []"
    by (simp add: AgentOptimizer_init_def)
  have path: "cached_file_path opt \<noteq> [] \<longrightarrow>
        cached_file_path (snd (run_steps later opt)) = cached_file_path opt
        \<and> GetFilesList \<notin> set (fst (run_steps later opt))"
    using run_steps_path_kept [of opt later] by blast
  have sch: "cached_schema opt \<noteq> [] \<longrightarrow>
        run_steps later opt = ([], opt)
        \<and> pre_model_hook (snd (run_steps later opt)) msgs = pre_model_hook opt msgs"
  proof
    assume s: "cached_schema opt \<noteq> []"
    with inv have "cached_file_path opt \<noteq> []" by (simp add: schema_under_path_def)
    from run_steps_kept [OF this s, of later]
    show "run_steps later opt = ([], opt)
        \<and> pre_model_hook (snd (run_steps later opt)) msgs = pre_model_hook opt msgs" by simp
  qed
  from fresh path sch show ?thesis unfolding opt_def by blast
qed

theorem session_cache_written_once_witness:
  "cached_file_path (snd (run_steps [CacheFilePath (sample_tools (str ''data/teams.csv'')),
                                     CacheSchema (sample_tools (str ''data/teams.csv''))]
                            (AgentOptimizer_init (str ''default_user'')))) = str ''data/teams.csv''
   \<and> cached_schema (snd (run_steps [CacheFilePath (sample_tools (str ''data/teams.csv'')),
                                     CacheSchema (sample_tools (str ''data/teams.csv''))]
                            (AgentOptimizer_init (str ''default_user''))))
       = [(str ''team'', str ''String''), (str ''runs'', str ''Int64'')]
   \<and> run_steps [CacheFilePath (sample_tools (str ''data/other.csv'')),
                 CacheSchema (sample_tools (str ''data/other.csv''))]
        (snd (run_steps [CacheFilePath (sample_tools (str ''data/teams.csv'')),
                         CacheSchema (sample_tools (str ''data/teams.csv''))]
                (AgentOptimizer_init (str ''default_user''))))
       = ([], \<lparr>user_id = str ''default_user'', cached_file_path = str ''data/teams.csv'',
               cached_schema = [(str ''team'', str ''String''), (str ''runs'', str ''Int64'')]\<rparr>)"
proof -
  have s: "strip (str ''data/teams.csv'') = str ''data/teams.csv''"
    by (simp add: strip_def is_space_def str_def)
  have n: "str ''data/teams.csv'' \<noteq> []" "str ''team'' \<noteq> str ''runs''"
    by (simp_all add: str_def)
  have e: "snd (run_steps [CacheFilePath (sample_tools (str ''data/teams.csv'')),
                           CacheSchema (sample_tools (str ''data/teams.csv''))]
                  (AgentOptimizer_init (str ''default_user'')))
      = \<lparr>user_id = str ''default_user'', cached_file_path = str ''data/teams.csv'',
         cached_schema = [(str ''team'', str ''String''), (str ''runs'', str ''Int64'')]\<rparr>"
    by (simp add: cache_file_path_def cache_schema_def sample_tools_def AgentOptimizer_init_def s n)
  from session_cache_written_once
         [of "(str ''default_user'')"
             "[CacheFilePath (sample_tools (str ''data/teams.csv'')),
               CacheSchema (sample_tools (str ''data/teams.csv''))]"
             "[CacheFilePath (sample_tools (str ''data/other.csv'')),
               CacheSchema (sample_tools (str ''data/other.csv''))]"]
  show ?thesis unfolding e by simp
qed

section \<open>The cached file path\<close>

lemma dropWhile_keeps:
  "p \<noteq> [] \<Longrightarrow> \<not> P (hd p) \<Longrightarrow> \<exists>a'. dropWhile P (a @ p @ r) = a' @ p @ r"
proof (induction a)
  case Nil
  then have "dropWhile P (p @ r) = p @ r" by (cases p) simp_all
  then show ?case by (metis append_Nil)
next
  case (Cons x a)
  then obtain a' where "dropWhile P (a @ p @ r) = a' @ p @ r" by blast
  then show ?case by (cases "P x") (auto intro: exI [of _ "x # a"])
qed














section \<open>The workflow graph, round by round\<close>

lemma run_graph_first_round:
  "0 < limit \<Longrightarrow> node msgs = Inr new \<Longrightarrow> router_function (msgs @ new) = END
   \<Longrightarrow> run_graph limit node msgs = (1, Inr (msgs @ new))"
  by (cases limit) (simp_all add: Let_def)

lemma run_graph_next_round:
  "0 < limit \<Longrightarrow> node msgs = Inr new \<Longrightarrow> router_function (msgs @ new) \<noteq> END
   \<Longrightarrow> run_graph limit node msgs
       = (Suc (fst (run_graph (limit - 1) node (msgs @ new))),
          snd (run_graph (limit - 1) node (msgs @ new)))"
  by (cases limit) (simp_all add: Let_def split: prod.splits)

lemma init_unchanged:
  "(AgentOptimizer_init uid)\<lparr>cached_file_path := [], cached_schema := []\<rparr> = AgentOptimizer_init uid"
  by (simp add: AgentOptimizer_init_def)

lemma init_empty:
  "cached_file_path (AgentOptimizer_init uid) = []" "cached_schema (AgentOptimizer_init uid) = []"
  by (simp_all add: AgentOptimizer_init_def)

lemma strip_keeps_end:
  assumes "p \<noteq> []" "\<not> is_space (hd p)" "\<not> is_space (last p)"
  shows "\<exists>t'. strip (t @ p) = t' @ p"
proof -
  from dropWhile_keeps [of p is_space t "[]"] assms(1,2)
  obtain a where a: "dropWhile is_space (t @ p) = a @ p" by auto
  from assms(1,3) have "dropWhile is_space (rev p @ rev a) = rev p @ rev a"
    by (cases "rev p") (auto simp: last_rev [symmetric] hd_rev)
  with a have "strip (t @ p) = a @ p" by (simp add: strip_def)
  then show ?thesis ..
qed

lemma router_ends_on_END:
  assumes "msgs \<noteq> []" and "content (last msgs) = t @ str ''END''"
  shows "router_function msgs = END"
proof -
  have "\<exists>t'. strip (t @ str ''END'') = t' @ str ''END''"
    by (rule strip_keeps_end) (simp_all add: str_def is_space_def)
  then obtain t' where "strip (t @ str ''END'') = t' @ str ''END''" ..
  then have "endswith (strip (t @ str ''END'')) (str ''END'')"
    by (simp add: endswith_def)
  with assms show ?thesis by (simp add: router_function_def Let_def str_def)
qed

lemmas router_eval =
  router_function_def Let_def endswith_def strip_def is_space_def lower_def lower_char_def str_def

section \<open>The pre-check on an empty file listing\<close>

text \<open>
  C3, as the specification states it, fails: with an empty file listing the session
  does not end in a fixed reply. The pre-check makes the one call to \<open>get_files_list\<close>
  and the question then goes to the agent, whose last message is the response.
\<close>

theorem empty_listing_answered_by_agent:
  "run 25 (sample_tools []) answering_agent (AgentOptimizer_init (str ''default_user''))
       (str ''What is the average?'')
     = ([GetFilesList], str ''The average is 42. END'', AgentOptimizer_init (str ''default_user''))
   \<and> str ''The average is 42. END'' \<noteq> str ''No file is present and there is nothing to analyze.''"
proof -
  have r: "router_function ([\<lparr>role = Human, content = str ''What is the average?''\<rparr>]
             @ [\<lparr>role = AI, content = str ''The average is 42. END''\<rparr>]) = END"
    by (simp add: router_eval)
  have g: "run_graph 25 (answering_agent (pre_model_hook (AgentOptimizer_init (str ''default_user''))))
             [\<lparr>role = Human, content = str ''What is the average?''\<rparr>]
           = (1, Inr ([\<lparr>role = Human, content = str ''What is the average?''\<rparr>]
                      @ [\<lparr>role = AI, content = str ''The average is 42. END''\<rparr>]))"
    by (rule run_graph_first_round [OF _ _ r]) (simp_all add: answering_agent_def)
  have c: "run 25 (sample_tools []) answering_agent (AgentOptimizer_init (str ''default_user''))
       (str ''What is the average?'')
     = ([GetFilesList], str ''The average is 42. END'', AgentOptimizer_init (str ''default_user''))"
    by (simp add: run_def cache_file_path_def cache_schema_def execute_def g sample_tools_def
          strip_def init_unchanged init_empty)
  have d: "str ''The average is 42. END'' \<noteq> str ''No file is present and there is nothing to analyze.''"
    by (simp add: str_def)
  from c d show ?thesis by simp
qed

text \<open>
  C3, amended. When the result of \<open>get_files_list\<close> strips to the empty string, the
  pre-check leaves the cached path empty, leaves the cached schema empty and does not
  call \<open>get_schema\<close>; no context is injected; and the question is still handed to the
  executor, whose reply is the response. When the agent's first round ends the loop,
  the response is the content of the agent's last message, whatever it is.
\<close>

theorem empty_listing_skips_schema_only:
  assumes "get_files_list_tool ts = Some (Inr raw)" and "strip raw = []"
  shows "run limit ts ag (AgentOptimizer_init uid) msg
           = ([GetFilesList],
              execute \<lparr>recursion_limit = 3\<rparr> limit ag (AgentOptimizer_init uid) msg,
              AgentOptimizer_init uid)
       \<and> pre_model_hook (AgentOptimizer_init uid) msgs = msgs
       \<and> (0 < limit \<and> ag (pre_model_hook (AgentOptimizer_init uid)) [\<lparr>role = Human, content = msg\<rparr>] = Inr new
            \<and> new \<noteq> [] \<and> router_function (\<lparr>role = Human, content = msg\<rparr> # new) = END
          \<longrightarrow> fst (snd (run limit ts ag (AgentOptimizer_init uid) msg)) = content (last new))"
proof -
  from assms have r: "run limit ts ag (AgentOptimizer_init uid) msg
           = ([GetFilesList],
              execute \<lparr>recursion_limit = 3\<rparr> limit ag (AgentOptimizer_init uid) msg,
              AgentOptimizer_init uid)"
    by (simp add: run_def cache_file_path_def cache_schema_def AgentOptimizer_init_def)
  have h: "pre_model_hook (AgentOptimizer_init uid) msgs = msgs"
    by (simp add: pre_model_hook_def AgentOptimizer_init_def)
  have e: "0 < limit \<and> ag (pre_model_hook (AgentOptimizer_init uid)) [\<lparr>role = Human, content = msg\<rparr>] = Inr new
            \<and> new \<noteq> [] \<and> router_function (\<lparr>role = Human, content = msg\<rparr> # new) = END
          \<longrightarrow> execute \<lparr>recursion_limit = 3\<rparr> limit ag (AgentOptimizer_init uid) msg = content (last new)"
  proof
    assume a: "0 < limit \<and> ag (pre_model_hook (AgentOptimizer_init uid)) [\<lparr>role = Human, content = msg\<rparr>] = Inr new
            \<and> new \<noteq> [] \<and> router_function (\<lparr>role = Human, content = msg\<rparr> # new) = END"
    then have "run_graph limit (ag (pre_model_hook (AgentOptimizer_init uid))) [\<lparr>role = Human, content = msg\<rparr>]
        = (1, Inr ([\<lparr>role = Human, content = msg\<rparr>] @ new))"
      by (intro run_graph_first_round) simp_all
    with a show "execute \<lparr>recursion_limit = 3\<rparr> limit ag (AgentOptimizer_init uid) msg = content (last new)"
      by (simp add: execute_def)
  qed
  from r h e show ?thesis by simp
qed

theorem empty_listing_skips_schema_only_witness:
  "get_files_list_tool (sample_tools (str '' '')) = Some (Inr (str '' '')) \<and> strip (str '' '') = []
   \<and> run 25 (sample_tools (str '' '')) answering_agent (AgentOptimizer_init (str ''default_user''))
        (str ''What is the average?'')
     = ([GetFilesList], str ''The average is 42. END'', AgentOptimizer_init (str ''default_user''))"
proof -
  have h1: "get_files_list_tool (sample_tools (str '' '')) = Some (Inr (str '' ''))"
    by (simp add: sample_tools_def)
  have h2: "strip (str '' '') = []" by (simp add: strip_def is_space_def str_def)
  have h3: "answering_agent (pre_model_hook (AgentOptimizer_init (str ''default_user'')))
              [\<lparr>role = Human, content = str ''What is the average?''\<rparr>]
            = Inr [\<lparr>role = AI, content = str ''The average is 42. END''\<rparr>]"
    by (simp add: answering_agent_def)
  have h4: "router_function [\<lparr>role = Human, content = str ''What is the average?''\<rparr>,
                             \<lparr>role = AI, content = str ''The average is 42. END''\<rparr>] = END"
    by (simp add: router_eval)
  from empty_listing_skips_schema_only
         [OF h1 h2, of 25 answering_agent "(str ''default_user'')" "(str ''What is the average?'')" "[]"
            "[\<lparr>role = AI, content = str ''The average is 42. END''\<rparr>]"] h1 h2 h3 h4
  show ?thesis by (cases "run 25 (sample_tools (str '' '')) answering_agent (AgentOptimizer_init (str ''default_user''))
        (str ''What is the average?'')") simp
qed


section \<open>The reasoning loop\<close>

lemma router_cap: "6 < length msgs \<Longrightarrow> router_function msgs = END"
  by (auto simp: router_function_def Let_def)

lemma run_graph_rounds: "fst (run_graph limit node msgs) \<le> limit"
proof (induction limit arbitrary: msgs)
  case 0
  then show ?case by simp
next
  case (Suc n)
  show ?case
  proof (cases "node msgs")
    case (Inl e)
    then show ?thesis by simp
  next
    case (Inr new)
    from Suc [of "msgs @ new"] Inr show ?thesis
      by (cases "run_graph n node (msgs @ new)") (simp add: Let_def)
  qed
qed

lemma run_graph_growing:
  assumes "\<forall>m new. node m = Inr new \<longrightarrow> new \<noteq> []"
  shows "fst (run_graph limit node msgs) \<le> max 1 (7 - length msgs)"
proof (induction limit arbitrary: msgs)
  case 0
  then show ?case by simp
next
  case (Suc n)
  show ?case
  proof (cases "node msgs")
    case (Inl e)
    then show ?thesis by simp
  next
    case (Inr new)
    with assms have "new \<noteq> []" by blast
    show ?thesis
    proof (cases "router_function (msgs @ new) = END")
      case True
      with Inr show ?thesis by (simp add: Let_def)
    next
      case False
      with router_cap [of "msgs @ new"] have "length msgs + length new \<le> 6" by fastforce
      moreover from \<open>new \<noteq> []\<close> have "1 \<le> length new" by (cases new) simp_all
      moreover from Suc [of "msgs @ new"]
      have "fst (run_graph n node (msgs @ new)) \<le> max 1 (7 - (length msgs + length new))"
        by simp
      ultimately have "fst (run_graph n node (msgs @ new)) < 7 - length msgs"
        by arith
      with Inr False show ?thesis
        by (cases "run_graph n node (msgs @ new)") (simp add: Let_def)
    qed
  qed
qed

text \<open>
  C4, amended. The reasoning loop is bounded: it never runs more rounds than the
  graph's recursion limit allows; the router ends it once more than 6 messages have
  accumulated, so an agent that adds at least one message per round gets at most 6
  rounds for a question; when the recursion limit is hit \<open>execute\<close> returns the
  partial-result reply, and any other exception becomes an error reply, so \<open>execute\<close>
  never raises. Nothing bounds the number of tool invocations.
\<close>

theorem reasoning_loop_bounded:
  "fst (run_graph limit node msgs) \<le> limit
   \<and> (6 < length msgs \<longrightarrow> router_function msgs = END)
   \<and> ((\<forall>m new. node m = Inr new \<longrightarrow> new \<noteq> []) \<longrightarrow>
        fst (run_graph limit node [\<lparr>role = Human, content = q\<rparr>]) \<le> 6)
   \<and> (snd (run_graph limit (ag (pre_model_hook opt)) [\<lparr>role = Human, content = q\<rparr>])
          = Inl GraphRecursionError \<longrightarrow>
        execute ex limit ag opt q = str ''Partial result due to recursion limit.'')
   \<and> (snd (run_graph limit (ag (pre_model_hook opt)) [\<lparr>role = Human, content = q\<rparr>])
          = Inl (Raised m) \<longrightarrow>
        execute ex limit ag opt q = str ''Error: '' @ m)"
proof -
  have "(\<forall>m new. node m = Inr new \<longrightarrow> new \<noteq> []) \<longrightarrow>
        fst (run_graph limit node [\<lparr>role = Human, content = q\<rparr>]) \<le> 6"
  proof
    assume "\<forall>m new. node m = Inr new \<longrightarrow> new \<noteq> []"
    from run_graph_growing [OF this, of limit "[\<lparr>role = Human, content = q\<rparr>]"]
    show "fst (run_graph limit node [\<lparr>role = Human, content = q\<rparr>]) \<le> 6" by simp
  qed
  then show ?thesis
    by (simp add: run_graph_rounds router_cap execute_def)
qed

text \<open>
  C4, as the specification states it, fails: an agent that invokes three tools in one
  round is neither stopped nor answered with a partial result.
\<close>

theorem three_tool_calls_unbounded:
  "run_graph 25 (three_tool_agent (pre_model_hook (AgentOptimizer_init (str ''default_user''))))
       [\<lparr>role = Human, content = str ''Total runs?''\<rparr>]
     = (1, Inr [\<lparr>role = Human, content = str ''Total runs?''\<rparr>,
                \<lparr>role = Tool, content = str ''data/teams.csv''\<rparr>,
                \<lparr>role = Tool, content = str ''team, runs''\<rparr>,
                \<lparr>role = Tool, content = str ''355''\<rparr>,
                \<lparr>role = AI, content = str ''Total runs: 355 END''\<rparr>])
   \<and> length (filter (\<lambda>m. role m = Tool)
        [\<lparr>role = Human, content = str ''Total runs?''\<rparr>,
         \<lparr>role = Tool, content = str ''data/teams.csv''\<rparr>,
         \<lparr>role = Tool, content = str ''team, runs''\<rparr>,
         \<lparr>role = Tool, content = str ''355''\<rparr>,
         \<lparr>role = AI, content = str ''Total runs: 355 END''\<rparr>]) = 3
   \<and> execute \<lparr>recursion_limit = 3\<rparr> 25 three_tool_agent (AgentOptimizer_init (str ''default_user''))
        (str ''Total runs?'') = str ''Total runs: 355 END''"
proof -
  have r: "router_function ([\<lparr>role = Human, content = str ''Total runs?''\<rparr>]
             @ [\<lparr>role = Tool, content = str ''data/teams.csv''\<rparr>,
                \<lparr>role = Tool, content = str ''team, runs''\<rparr>,
                \<lparr>role = Tool, content = str ''355''\<rparr>,
                \<lparr>role = AI, content = str ''Total runs: 355 END''\<rparr>]) = END"
    by (simp add: router_eval)
  have g: "run_graph 25 (three_tool_agent (pre_model_hook (AgentOptimizer_init (str ''default_user''))))
             [\<lparr>role = Human, content = str ''Total runs?''\<rparr>]
           = (1, Inr ([\<lparr>role = Human, content = str ''Total runs?''\<rparr>]
             @ [\<lparr>role = Tool, content = str ''data/teams.csv''\<rparr>,
                \<lparr>role = Tool, content = str ''team, runs''\<rparr>,
                \<lparr>role = Tool, content = str ''355''\<rparr>,
                \<lparr>role = AI, content = str ''Total runs: 355 END''\<rparr>]))"
    by (rule run_graph_first_round [OF _ _ r]) (simp_all add: three_tool_agent_def)
  show ?thesis by (simp add: g execute_def)
qed

theorem reasoning_loop_bounded_witness:
  "6 < length (replicate 7 \<lparr>role = AI, content = str ''thinking''\<rparr>)
   \<and> router_function (replicate 7 \<lparr>role = AI, content = str ''thinking''\<rparr>) = END
   \<and> fst (run_graph 2 (pondering_agent (pre_model_hook (AgentOptimizer_init (str ''default_user''))))
            [\<lparr>role = Human, content = str ''Total runs?''\<rparr>]) \<le> 6
   \<and> snd (run_graph 2 (pondering_agent (pre_model_hook (AgentOptimizer_init (str ''default_user''))))
            [\<lparr>role = Human, content = str ''Total runs?''\<rparr>]) = Inl GraphRecursionError
   \<and> execute \<lparr>recursion_limit = 3\<rparr> 2 pondering_agent (AgentOptimizer_init (str ''default_user''))
        (str ''Total runs?'') = str ''Partial result due to recursion limit.''"
proof -
  have h1: "6 < length (replicate 7 \<lparr>role = AI, content = str ''thinking''\<rparr>)" by simp
  have h2: "\<forall>m new. pondering_agent (pre_model_hook (AgentOptimizer_init (str ''default_user''))) m = Inr new
         \<longrightarrow> new \<noteq> []"
    by (auto simp: pondering_agent_def)
  have h3: "snd (run_graph 2 (pondering_agent (pre_model_hook (AgentOptimizer_init (str ''default_user''))))
            [\<lparr>role = Human, content = str ''Total runs?''\<rparr>]) = Inl GraphRecursionError"
  proof -
    let ?node = "pondering_agent (pre_model_hook (AgentOptimizer_init (str ''default_user'')))"
    let ?q = "\<lparr>role = Human, content = str ''Total runs?''\<rparr>"
    let ?t = "\<lparr>role = AI, content = str ''thinking''\<rparr>"
    have r1: "router_function ([?q] @ [?t]) \<noteq> END" by (simp add: router_eval)
    have r2: "router_function (([?q] @ [?t]) @ [?t]) \<noteq> END" by (simp add: router_eval)
    have n: "\<And>m. ?node m = Inr [?t]" by (simp add: pondering_agent_def)
    from run_graph_next_round [of 2 ?node "[?q]" "[?t]", OF _ n r1]
         run_graph_next_round [of 1 ?node "[?q] @ [?t]" "[?t]", OF _ n r2]
    show ?thesis by simp
  qed
  from reasoning_loop_bounded
         [of 2 "pondering_agent (pre_model_hook (AgentOptimizer_init (str ''default_user'')))"
             "replicate 7 \<lparr>role = AI, content = str ''thinking''\<rparr>" "(str ''Total runs?'')"
             pondering_agent "AgentOptimizer_init (str ''default_user'')" "\<lparr>recursion_limit = 3\<rparr>" "[]"]
       h1 h2 h3
  show ?thesis by blast
qed

section \<open>From records to the reply\<close>

lemma length_to_dicts: "length (to_dicts df) = length (rows df)"
  by (simp add: to_dicts_def)

lemma execute_returns_last_content:
  "snd (run_graph limit (ag (pre_model_hook opt)) [\<lparr>role = Human, content = msg\<rparr>]) = Inr msgs
   \<Longrightarrow> msgs \<noteq> [] \<Longrightarrow> execute ex limit ag opt msg = content (last msgs)"
  by (simp add: execute_def)

text \<open>
  C8, as the specification states it, fails: nothing in the code caps the rows or marks
  an empty result. A result of 37 rows leaves the tool as 37 records, a reply with a
  table of 37 rows is returned as the agent wrote it, and an empty result leaves the
  tool as the empty list.
\<close>

theorem no_row_cap_no_empty_marker:
  "snd (execute_polars_sql long_engine [''data/long.csv''] ''SELECT * FROM self'' ''csv'')
     = Inr (replicate 37 [(''team'', SStr ''MI''), (''runs'', SInt 180)])
   \<and> execute \<lparr>recursion_limit = 3\<rparr> 25 table_agent (AgentOptimizer_init (str ''default_user''))
         (str ''List the runs'')
     = str ''| team | runs |'' @ [0x0A] @ str ''|------|------|'' @ [0x0A]
       @ List.concat (replicate 37 (str ''| MI | 180 |'' @ [0x0A])) @ str ''END''
   \<and> snd (execute_polars_sql long_engine [''data/empty.csv''] ''SELECT * FROM self'' ''csv'')
     = Inr []"
proof -
  have a: "snd (execute_polars_sql long_engine [''data/long.csv''] ''SELECT * FROM self'' ''csv'')
     = Inr (replicate 37 [(''team'', SStr ''MI''), (''runs'', SInt 180)])"
    by (simp add: execute_polars_sql_def read_file_list_def engine_def long_engine_def
          memory_engine_def load_csv_def vstack_def echo_sql_def to_dicts_def long_csv_def)
  have c: "snd (execute_polars_sql long_engine [''data/empty.csv''] ''SELECT * FROM self'' ''csv'')
     = Inr []"
    by (simp add: execute_polars_sql_def read_file_list_def engine_def long_engine_def
          memory_engine_def load_csv_def vstack_def echo_sql_def to_dicts_def empty_csv_def)
  let ?q = "\<lparr>role = Human, content = str ''List the runs''\<rparr>"
  let ?node = "table_agent (pre_model_hook (AgentOptimizer_init (str ''default_user'')))"
  have t: "content (last ([?q] @ [\<lparr>role = AI, content = table_reply\<rparr>]))
      = (str ''| team | runs |'' @ [0x0A] @ str ''|------|------|'' @ [0x0A]
         @ List.concat (replicate 37 (str ''| MI | 180 |'' @ [0x0A]))) @ str ''END''"
    by (simp add: table_reply_def)
  have r: "router_function ([?q] @ [\<lparr>role = AI, content = table_reply\<rparr>]) = END"
    by (rule router_ends_on_END [OF _ t]) simp
  have g: "run_graph 25 ?node [?q] = (1, Inr ([?q] @ [\<lparr>role = AI, content = table_reply\<rparr>]))"
    by (rule run_graph_first_round [OF _ _ r]) (simp_all add: table_agent_def)
  have b: "execute \<lparr>recursion_limit = 3\<rparr> 25 table_agent (AgentOptimizer_init (str ''default_user''))
         (str ''List the runs'') = table_reply"
    by (simp add: execute_def g)
  from a b c show ?thesis by (simp add: table_reply_def)
qed

text \<open>
  C8, amended. For every executed record sequence, of more than 10 records or not, the
  code shapes nothing: \<open>execute_polars_sql\<close> returns the records of the frame the
  engine returns, one record per row, so the record count is that of the result (the
  empty list for an empty result), and in chat mode \<open>execute\<close> returns the content of
  the agent's last message as it is.
\<close>

theorem records_and_reply_unshaped:
  "(snd (read_file_list pl files ft) = Inr df \<and> sql pl df q = Inr out \<longrightarrow>
      snd (execute_polars_sql pl files q ft) = Inr (to_dicts out)
      \<and> length (to_dicts out) = length (rows out)
      \<and> (rows out = [] \<longrightarrow> to_dicts out = []))
   \<and> (snd (run_graph limit (ag (pre_model_hook opt)) [\<lparr>role = Human, content = msg\<rparr>]) = Inr msgs
        \<and> msgs \<noteq> [] \<longrightarrow>
      execute ex limit ag opt msg = content (last msgs))"
proof -
  have "snd (read_file_list pl files ft) = Inr df \<and> sql pl df q = Inr out \<longrightarrow>
      snd (execute_polars_sql pl files q ft) = Inr (to_dicts out)"
    by (cases "read_file_list pl files ft") (auto simp: execute_polars_sql_def)
  moreover have "rows out = [] \<longrightarrow> to_dicts out = []"
    by (simp add: to_dicts_def)
  ultimately show ?thesis
    by (simp add: length_to_dicts execute_returns_last_content)
qed

theorem records_and_reply_unshaped_witness:
  "snd (read_file_list long_engine [''data/long.csv''] ''csv'') = Inr long_csv
   \<and> sql long_engine long_csv ''SELECT team FROM self'' = Inr long_csv
   \<and> length (rows long_csv) = 37
   \<and> snd (execute_polars_sql long_engine [''data/long.csv''] ''SELECT team FROM self'' ''csv'')
       = Inr (to_dicts long_csv)
   \<and> length (to_dicts long_csv) = 37
   \<and> execute \<lparr>recursion_limit = 3\<rparr> 25 answering_agent (AgentOptimizer_init (str ''default_user''))
        (str ''What is the average?'') = str ''The average is 42. END''"
proof -
  have h1: "snd (read_file_list long_engine [''data/long.csv''] ''csv'') = Inr long_csv"
    by (simp add: read_file_list_def engine_def long_engine_def memory_engine_def load_csv_def
          vstack_def long_csv_def)
  have h2: "sql long_engine long_csv ''SELECT team FROM self'' = Inr long_csv"
    by (simp add: long_engine_def memory_engine_def echo_sql_def)
  have h3: "length (rows long_csv) = 37" by (simp add: long_csv_def)
  let ?q = "\<lparr>role = Human, content = str ''What is the average?''\<rparr>"
  let ?a = "\<lparr>role = AI, content = str ''The average is 42. END''\<rparr>"
  let ?node = "answering_agent (pre_model_hook (AgentOptimizer_init (str ''default_user'')))"
  have r: "router_function ([?q] @ [?a]) = END" by (simp add: router_eval)
  have g: "run_graph 25 ?node [?q] = (1, Inr ([?q] @ [?a]))"
    by (rule run_graph_first_round [OF _ _ r]) (simp_all add: answering_agent_def)
  then have h4: "snd (run_graph 25 ?node [?q]) = Inr ([?q] @ [?a])" by simp
  from records_and_reply_unshaped
         [of long_engine "[''data/long.csv'']" "''csv''" long_csv "''SELECT team FROM self''" long_csv
             25 answering_agent "AgentOptimizer_init (str ''default_user'')" "str ''What is the average?''"
             "[?q] @ [?a]" "\<lparr>recursion_limit = 3\<rparr>"]
       h1 h2 h3 h4
  show ?thesis by simp
qed

end
